theory Spec2Isabelle
  imports Main "HOL-Library.AList" "HOL-Library.Log_Nat"
begin

section \<open>The open-files cache of nuclide-open-files-rpc\<close>

text \<open>
  A shallow embedding of \<^verbatim>\<open>pkg/nuclide-open-files-rpc/lib/FileCache.js\<close>.
  The class \<^verbatim>\<open>FileCache\<close> becomes a record of its fields, every method a function
  that takes the cache and returns the cache it leaves behind, and every exception a value
  of the type \<open>error\<close>.
\<close>

subsection \<open>Paths, versions, positions\<close>

type_synonym NuclideUri = string

text \<open>
  \<^verbatim>\<open>FileVersion\<close> of rpc-types: a path and a version number. Its third field
  \<^verbatim>\<open>notifier\<close> is the cache itself (\<^verbatim>\<open>createFileVersion\<close> stores \<^verbatim>\<open>this\<close>) and is left out.
  Version numbers and change counters are JavaScript numbers holding integers.
\<close>

record FileVersion =
  filePath :: NuclideUri
  version :: int

subsection \<open>JavaScript numbers\<close>

text \<open>
  A JavaScript number is a double: of the integers it holds those that fit 53 significant
  bits. The model's type is \<open>int\<close>, and \<open>isJsNumber\<close> says which integers are numbers;
  an integer that is none is not a value the code can hold or be given. \<open>roundDouble\<close>
  is the rounding of an exact integer result to the nearest number, a tie going to the
  even significand: up to \<open>2^53\<close> in magnitude every integer is a number, beyond that the
  numbers lie \<open>2 ^ (bitlen \<bar>n\<bar> - 53)\<close> apart. \<open>jsAdd\<close> and \<open>jsSub\<close> are \<^verbatim>\<open>+\<close> and \<^verbatim>\<open>-\<close>
  on such numbers; the code adds and subtracts only 1, so a result never passes the largest
  double and the overflow to infinity is left out. \<^verbatim>\<open>===\<close> and \<^verbatim>\<open><\<close> compare numbers
  as integers.
\<close>

definition roundDouble :: "int \<Rightarrow> int" where
  "roundDouble n =
     (if \<bar>n\<bar> \<le> 2 ^ 53 then n
      else
        let u = 2 ^ nat (bitlen \<bar>n\<bar> - 53);
            q = \<bar>n\<bar> div u;
            r = \<bar>n\<bar> mod u;
            m = (if 2 * r < u \<or> (2 * r = u \<and> even q) then q else q + 1)
        in sgn n * (m * u))"

definition isJsNumber :: "int \<Rightarrow> bool" where
  "isJsNumber n = (roundDouble n = n)"

definition jsAdd :: "int \<Rightarrow> int \<Rightarrow> int" where
  "jsAdd a b = roundDouble (a + b)"

definition jsSub :: "int \<Rightarrow> int \<Rightarrow> int" where
  "jsSub a b = roundDouble (a - b)"

text \<open>\<^verbatim>\<open>atom$Point\<close> and \<^verbatim>\<open>atom$Range\<close>: a row and a column, and a pair of points.\<close>

record Point =
  row :: nat
  column :: nat

record Range =
  start :: Point
  end' :: Point

subsection \<open>The text buffer\<close>

text \<open>
  Modelled from the spec: \<^verbatim>\<open>TextBuffer\<close> comes from the package simple-text-buffer, which
  is not among the sources. The spec describes it as in-memory mutable text with
  range-based get and set, full-text get and set, standard line and column addressing and a
  change counter incremented on each mutation. The model keeps the text as one string whose
  lines are separated by the newline character, clips a position to the text as an editor
  does (a column past the end of its line is the end of that line, a row past the last
  line is the end of the text), and reads a range whose end lies before its start as empty.
\<close>

record TextBuffer =
  bufferText :: string
  changeCount :: int

definition newline :: char where
  "newline = CHR 0x0A"

fun characterIndexForPosition :: "string \<Rightarrow> nat \<Rightarrow> nat \<Rightarrow> nat" where
  "characterIndexForPosition [] r c = 0"
| "characterIndexForPosition (x # xs) 0 c =
     (if c = 0 \<or> x = newline then 0 else Suc (characterIndexForPosition xs 0 (c - 1)))"
| "characterIndexForPosition (x # xs) (Suc r) c =
     Suc (if x = newline then characterIndexForPosition xs r c
          else characterIndexForPosition xs (Suc r) c)"

fun getEndPosition :: "string \<Rightarrow> Point" where
  "getEndPosition [] = \<lparr>row = 0, column = 0\<rparr>"
| "getEndPosition (x # xs) =
     (let p = getEndPosition xs in
      if x = newline then p\<lparr>row := Suc (row p)\<rparr>
      else if row p = 0 then p\<lparr>column := Suc (column p)\<rparr>
      else p)"

definition textInRange :: "string \<Rightarrow> Range \<Rightarrow> string" where
  "textInRange t r =
     (let i = characterIndexForPosition t (row (start r)) (column (start r));
          j = characterIndexForPosition t (row (end' r)) (column (end' r))
      in take (j - i) (drop i t))"

definition replaceRange :: "string \<Rightarrow> Range \<Rightarrow> string \<Rightarrow> string" where
  "replaceRange t r new =
     (let i = characterIndexForPosition t (row (start r)) (column (start r));
          j = characterIndexForPosition t (row (end' r)) (column (end' r))
      in take i t @ new @ drop (max i j) t)"

definition newTextBuffer :: "string \<Rightarrow> TextBuffer" where
  "newTextBuffer contents = \<lparr>bufferText = contents, changeCount = 0\<rparr>"

definition getText :: "TextBuffer \<Rightarrow> string" where
  "getText buffer = bufferText buffer"

definition getRange :: "TextBuffer \<Rightarrow> Range" where
  "getRange buffer =
     \<lparr>start = \<lparr>row = 0, column = 0\<rparr>, end' = getEndPosition (bufferText buffer)\<rparr>"

definition getTextInRange :: "TextBuffer \<Rightarrow> Range \<Rightarrow> string" where
  "getTextInRange buffer r = textInRange (bufferText buffer) r"

definition setTextInRange :: "TextBuffer \<Rightarrow> Range \<Rightarrow> string \<Rightarrow> TextBuffer" where
  "setTextInRange buffer r new =
     buffer\<lparr>bufferText := replaceRange (bufferText buffer) r new,
            changeCount := jsAdd (changeCount buffer) 1\<rparr>"

definition setText :: "TextBuffer \<Rightarrow> string \<Rightarrow> TextBuffer" where
  "setText buffer new =
     buffer\<lparr>bufferText := new, changeCount := jsAdd (changeCount buffer) 1\<rparr>"

subsection \<open>Events and errors\<close>

text \<open>
  \<^verbatim>\<open>FileEvent\<close> of rpc-types, one constructor for each \<^verbatim>\<open>kind\<close> that
  \<^verbatim>\<open>onFileEvent\<close> switches on: \<^verbatim>\<open>open\<close>, \<^verbatim>\<open>close\<close>, \<^verbatim>\<open>edit\<close> (old range, old text,
  new range, new text) and \<^verbatim>\<open>sync\<close>. \<open>FileOtherEvent\<close> stands for an object with any other
  \<^verbatim>\<open>kind\<close>, which reaches the \<^verbatim>\<open>default\<close> branch. The events the cache publishes
  (\<^verbatim>\<open>LocalFileEvent\<close>) are values of the same type.
\<close>

datatype FileEvent =
    FileOpenEvent FileVersion string
  | FileCloseEvent FileVersion
  | FileEditEvent FileVersion Range string Range string
  | FileSyncEvent FileVersion string
  | FileOtherEvent string FileVersion

fun fileVersion :: "FileEvent \<Rightarrow> FileVersion" where
  "fileVersion (FileOpenEvent fv contents) = fv"
| "fileVersion (FileCloseEvent fv) = fv"
| "fileVersion (FileEditEvent fv oldRange oldText newRange newText) = fv"
| "fileVersion (FileSyncEvent fv contents) = fv"
| "fileVersion (FileOtherEvent kind fv) = fv"

text \<open>
  What \<^verbatim>\<open>onFileEvent\<close> throws. \<open>DesyncError\<close> is the error of a failed
  \<^verbatim>\<open>invariant(...)\<close>, the out-of-sync state the comment above \<^verbatim>\<open>onFileEvent\<close> speaks of;
  \<open>UnexpectedKind\<close> is the \<^verbatim>\<open>Error\<close> of the \<^verbatim>\<open>default\<close> branch.
\<close>

datatype error = DesyncError | UnexpectedKind string

subsection \<open>The cache\<close>

text \<open>
  The fields of \<^verbatim>\<open>FileCache\<close>. \<open>buffers\<close> is the \<^verbatim>\<open>Map\<close> \<^verbatim>\<open>_buffers\<close> as the list of its
  entries in insertion order, which is the order a JavaScript \<^verbatim>\<open>Map\<close> iterates in;
  \<^verbatim>\<open>get\<close>, \<^verbatim>\<open>set\<close> and \<^verbatim>\<open>delete\<close> are \<open>map_of\<close>, \<open>AList.update\<close> and \<open>AList.delete\<close>.
  The subject \<^verbatim>\<open>_fileEvents\<close> is modelled by what went through it: \<open>fileEvents\<close> lists
  every event handed to \<^verbatim>\<open>_fileEvents.next\<close>, oldest first (the sequence the constructor's
  own subscription passes on to \<^verbatim>\<open>_requests.onEvent\<close>), and \<open>observers\<close> holds, for each
  subscriber of \<^verbatim>\<open>observeFileEvents()\<close>, the events it has received so far.
  \<open>directoryEvents\<close> is the current value of the \<^verbatim>\<open>BehaviorSubject\<close> \<^verbatim>\<open>_directoryEvents\<close>:
  a \<^verbatim>\<open>Set\<close>, as the list of its elements in iteration order.
  The cache is modelled while it is live, that is before \<^verbatim>\<open>dispose()\<close>.
\<close>

record FileCache =
  buffers :: "(NuclideUri \<times> TextBuffer) list"
  fileEvents :: "FileEvent list"
  observers :: "FileEvent list list"
  directoryEvents :: "NuclideUri list"

definition newFileCache :: FileCache where
  "newFileCache = \<lparr>buffers = [], fileEvents = [], observers = [], directoryEvents = []\<rparr>"

definition createFileVersion :: "NuclideUri \<Rightarrow> int \<Rightarrow> FileVersion" where
  "createFileVersion path v = \<lparr>filePath = path, version = v\<rparr>"

definition createOpenEvent :: "FileVersion \<Rightarrow> string \<Rightarrow> FileEvent" where
  "createOpenEvent fv contents = FileOpenEvent fv contents"

definition createCloseEvent :: "FileVersion \<Rightarrow> FileEvent" where
  "createCloseEvent fv = FileCloseEvent fv"

definition createEditEvent ::
  "FileVersion \<Rightarrow> Range \<Rightarrow> string \<Rightarrow> Range \<Rightarrow> string \<Rightarrow> FileEvent" where
  "createEditEvent fv oldRange oldText newRange newText =
     FileEditEvent fv oldRange oldText newRange newText"

text \<open>
  \<^verbatim>\<open>_fileEvents.next(event)\<close>: the subject hands the event to every subscriber, in order.
\<close>

definition fileEventsNext :: "FileEvent \<Rightarrow> FileCache \<Rightarrow> FileCache" where
  "fileEventsNext event c =
     c\<lparr>fileEvents := fileEvents c @ [event],
       observers := map (\<lambda>received. received @ [event]) (observers c)\<rparr>"

text \<open>
  \<^verbatim>\<open>update(updateBufferAndMakeEventFunc)\<close>: runs the closure, which changes the cache and
  returns the event to publish, then publishes it. A closure that throws leaves the cache
  as it was at the throw and publishes nothing.
\<close>

definition update ::
  "(FileCache \<Rightarrow> FileCache \<times> (error + FileEvent)) \<Rightarrow> FileCache \<Rightarrow> FileCache \<times> (error + unit)" where
  "update updateBufferAndMakeEventFunc c =
     (case updateBufferAndMakeEventFunc c of
        (c', Inl e) \<Rightarrow> (c', Inl e)
      | (c', Inr event) \<Rightarrow> (fileEventsNext event c', Inr ()))"

text \<open>
  A buffer is an object shared by reference: the \<^verbatim>\<open>buffer\<close> that \<^verbatim>\<open>onFileEvent\<close> reads
  from the map is the one the map holds, so mutating it is replacing the entry's value in
  place.
\<close>

definition setBuffer :: "NuclideUri \<Rightarrow> TextBuffer \<Rightarrow> FileCache \<Rightarrow> FileCache" where
  "setBuffer path buffer c = c\<lparr>buffers := AList.update path buffer (buffers c)\<rparr>"

definition getBuffer :: "FileCache \<Rightarrow> NuclideUri \<Rightarrow> TextBuffer option" where
  "getBuffer c path = map_of (buffers c) path"

definition open' :: "FileCache \<Rightarrow> NuclideUri \<Rightarrow> string \<Rightarrow> int \<Rightarrow> FileCache \<times> (error + unit)" where
  "open' c path contents count =
     (let newBuffer = (newTextBuffer contents)\<lparr>changeCount := count\<rparr> in
      update (\<lambda>c. (setBuffer path newBuffer c,
                    Inr (createOpenEvent (createFileVersion path count) contents))) c)"

text \<open>
  \<^verbatim>\<open>_close\<close> ends with \<^verbatim>\<open>buffer.destroy()\<close>; the buffer has left the map by then, and
  the call changes nothing that the cache holds.
\<close>

definition close :: "FileCache \<Rightarrow> NuclideUri \<Rightarrow> TextBuffer \<Rightarrow> FileCache \<times> (error + unit)" where
  "close c path buffer =
     update (\<lambda>c. (c\<lparr>buffers := AList.delete path (buffers c)\<rparr>,
                   Inr (createCloseEvent (createFileVersion path (changeCount buffer))))) c"

definition syncEdit ::
  "FileCache \<Rightarrow> NuclideUri \<Rightarrow> TextBuffer \<Rightarrow> string \<Rightarrow> int \<Rightarrow> FileCache \<times> (error + unit)" where
  "syncEdit c path buffer contents count =
     (if count < changeCount buffer then (c, Inr ())
      else
        let oldText = getText buffer; oldRange = getRange buffer in
        update (\<lambda>c.
          let buffer1 = setText buffer contents;
              newRange = getRange buffer1;
              buffer2 = buffer1\<lparr>changeCount := count\<rparr>
          in (setBuffer path buffer2 c,
              Inr (createEditEvent (createFileVersion path count)
                     oldRange oldText newRange (getText buffer2)))) c)"

fun onFileEvent :: "FileCache \<Rightarrow> FileEvent \<Rightarrow> FileCache \<times> (error + unit)" where
  "onFileEvent c (FileOpenEvent fv contents) =
     (case getBuffer c (filePath fv) of
        Some buffer \<Rightarrow> (c, Inl DesyncError)
      | None \<Rightarrow> open' c (filePath fv) contents (version fv))"
| "onFileEvent c (FileCloseEvent fv) =
     (case getBuffer c (filePath fv) of
        Some buffer \<Rightarrow> close c (filePath fv) buffer
      | None \<Rightarrow> (c, Inr ()))"
| "onFileEvent c (FileEditEvent fv oldRange oldText newRange newText) =
     (case getBuffer c (filePath fv) of
        None \<Rightarrow> (c, Inl DesyncError)
      | Some buffer \<Rightarrow>
          if changeCount buffer \<noteq> jsSub (version fv) 1 then (c, Inl DesyncError)
          else if getTextInRange buffer oldRange \<noteq> oldText then (c, Inl DesyncError)
          else
            update (\<lambda>c.
              let buffer1 = setTextInRange buffer oldRange newText;
                  c1 = setBuffer (filePath fv) buffer1 c
              in if changeCount buffer1 \<noteq> version fv then (c1, Inl DesyncError)
                 else (c1, Inr (FileEditEvent fv oldRange oldText newRange newText))) c)"
| "onFileEvent c (FileSyncEvent fv contents) =
     (case getBuffer c (filePath fv) of
        None \<Rightarrow> open' c (filePath fv) contents (version fv)
      | Some buffer \<Rightarrow> syncEdit c (filePath fv) buffer contents (version fv))"
| "onFileEvent c (FileOtherEvent kind fv) = (c, Inl (UnexpectedKind kind))"

text \<open>
  Successive calls of \<^verbatim>\<open>onFileEvent\<close>, one for each event of a list, in order. Each
  call is one request of the client: an error is the answer to that request and does not
  stop the later ones. The result is the cache after the last call and the outcome of every
  call.
\<close>

fun onFileEvents :: "FileCache \<Rightarrow> FileEvent list \<Rightarrow> FileCache \<times> (error + unit) list" where
  "onFileEvents c [] = (c, [])"
| "onFileEvents c (event # events) =
     (case onFileEvent c event of
        (c1, r) \<Rightarrow> (case onFileEvents c1 events of (c2, rs) \<Rightarrow> (c2, r # rs)))"

subsection \<open>Reading buffers at a version\<close>

text \<open>
  \<^verbatim>\<open>getBufferAtVersion\<close> awaits \<^verbatim>\<open>_requests.waitForBufferAtVersion(fileVersion)\<close> and
  \<^verbatim>\<open>_tryGetBufferAtVersionSynchronously\<close> asks \<^verbatim>\<open>_requests.isBufferAtVersion(fileVersion)\<close>.
  The class \<^verbatim>\<open>FileVersionNotifier\<close> of \<^verbatim>\<open>_requests\<close> is not among the sources, so the
  boolean it answers is a parameter of the model: \<open>waited\<close> is what the wait resolved to
  and \<open>c\<close> is the cache at the moment the caller resumes; \<open>isAtVersion\<close> is the
  notifier's immediate answer.
\<close>

definition getBufferAtVersion :: "bool \<Rightarrow> FileCache \<Rightarrow> FileVersion \<Rightarrow> TextBuffer option" where
  "getBufferAtVersion waited c fv =
     (if \<not> waited then None
      else (case getBuffer c (filePath fv) of
              None \<Rightarrow> None
            | Some buffer \<Rightarrow> if changeCount buffer = version fv then Some buffer else None))"

definition tryGetBufferAtVersionSynchronously ::
  "bool \<Rightarrow> FileCache \<Rightarrow> FileVersion \<Rightarrow> TextBuffer option" where
  "tryGetBufferAtVersionSynchronously isAtVersion c fv =
     (if \<not> isAtVersion then None
      else (case getBuffer c (filePath fv) of
              None \<Rightarrow> None
            | Some buffer \<Rightarrow> if changeCount buffer = version fv then Some buffer else None))"

subsection \<open>Observing the events\<close>

text \<open>
  \<^verbatim>\<open>observeFileEvents()\<close> builds, when it is called, the array of one open event for each
  entry of \<^verbatim>\<open>_buffers\<close>, and returns the observable that replays this array and then
  continues with \<^verbatim>\<open>_fileEvents\<close>. The model's value of that observable is the array.
  \<open>subscribe\<close> is a subscription to it, as RxJS runs
  \<^verbatim>\<open>Observable.from(array).concat(subject)\<close>: the subscriber receives the array at once and
  is then a subscriber of the subject.
\<close>

definition observeFileEvents :: "FileCache \<Rightarrow> FileEvent list" where
  "observeFileEvents c =
     map (\<lambda>(path, buffer).
            createOpenEvent (createFileVersion path (changeCount buffer)) (getText buffer))
         (buffers c)"

definition subscribe :: "FileEvent list \<Rightarrow> FileCache \<Rightarrow> FileCache" where
  "subscribe replay c = c\<lparr>observers := observers c @ [replay]\<rparr>"

subsection \<open>Open directories\<close>

definition onDirectoriesChanged :: "NuclideUri list \<Rightarrow> FileCache \<Rightarrow> FileCache" where
  "onDirectoriesChanged openDirectories c = c\<lparr>directoryEvents := openDirectories\<rparr>"

definition getOpenDirectories :: "FileCache \<Rightarrow> NuclideUri list" where
  "getOpenDirectories c = directoryEvents c"

text \<open>
  The loop of \<^verbatim>\<open>getContainingDirectory\<close> over the open directories. \<^verbatim>\<open>nuclideUri.contains\<close>
  is not among the sources and is a parameter.
\<close>

fun firstContaining ::
  "(NuclideUri \<Rightarrow> NuclideUri \<Rightarrow> bool) \<Rightarrow> NuclideUri list \<Rightarrow> NuclideUri \<Rightarrow> NuclideUri option" where
  "firstContaining contains [] path = None"
| "firstContaining contains (dir # dirs) path =
     (if contains dir path then Some dir else firstContaining contains dirs path)"

definition getContainingDirectory ::
  "(NuclideUri \<Rightarrow> NuclideUri \<Rightarrow> bool) \<Rightarrow> FileCache \<Rightarrow> NuclideUri \<Rightarrow> NuclideUri option" where
  "getContainingDirectory contains c path = firstContaining contains (getOpenDirectories c) path"

text \<open>
  Modelled from the spec: \<^verbatim>\<open>nuclideUri.contains\<close> (commons-node/nuclideUri) is not among
  the sources; the spec says that the directory is a path-ancestor of the path. Here a
  path contains itself and every path that continues it after a separator. It serves only
  as an instance of the parameter above.
\<close>

definition pathContains :: "NuclideUri \<Rightarrow> NuclideUri \<Rightarrow> bool" where
  "pathContains parent child =
     (child = parent \<or> take (Suc (length parent)) child = parent @ ''/'')"

subsection \<open>Sequences of edits, as the specification describes them\<close>

text \<open>
  The result of applying the range replacements of a list of edit events to a text, in
  order; and what it means for the edits of a list to pass validation one after the other,
  starting from a text and a counter: each is an edit of the path whose version is
  exactly the counter plus one, the two being JavaScript numbers, and whose old text is the
  text at its old range.
\<close>

fun applyReplacements :: "string \<Rightarrow> FileEvent list \<Rightarrow> string" where
  "applyReplacements t [] = t"
| "applyReplacements t (FileEditEvent fv oldRange oldText newRange newText # events) =
     applyReplacements (replaceRange t oldRange newText) events"
| "applyReplacements t (event # events) = applyReplacements t events"

fun editsPassValidation :: "NuclideUri \<Rightarrow> string \<Rightarrow> int \<Rightarrow> FileEvent list \<Rightarrow> bool" where
  "editsPassValidation path t v [] = True"
| "editsPassValidation path t v (FileEditEvent fv oldRange oldText newRange newText # events) =
     (filePath fv = path \<and> version fv = v + 1 \<and> isJsNumber v \<and> isJsNumber (version fv) \<and>
      textInRange t oldRange = oldText \<and>
      editsPassValidation path (replaceRange t oldRange newText) (version fv) events)"
| "editsPassValidation path t v (event # events) = False"

text \<open>
  The events published by a run that took the cache from \<open>c\<close> to \<open>c'\<close>: what
  \<open>fileEvents\<close> gained.
\<close>

definition publishedSince :: "FileCache \<Rightarrow> FileCache \<Rightarrow> FileEvent list" where
  "publishedSince c c' = drop (length (fileEvents c)) (fileEvents c')"

text \<open>
  The version an event carries is the change counter of the buffer it is about: for an
  open or an edit event, the counter that the buffer of the event's path holds in the cache
  \<open>c'\<close> after the call; for a close event, the counter that the buffer held in the cache
  \<open>c\<close> before the call, the path having no buffer afterwards. Events of the other kinds
  are not published.
\<close>

fun versionIsCounter :: "FileCache \<Rightarrow> FileCache \<Rightarrow> FileEvent \<Rightarrow> bool" where
  "versionIsCounter c c' (FileOpenEvent fv contents) =
     (map_option changeCount (getBuffer c' (filePath fv)) = Some (version fv))"
| "versionIsCounter c c' (FileEditEvent fv oldRange oldText newRange newText) =
     (map_option changeCount (getBuffer c' (filePath fv)) = Some (version fv))"
| "versionIsCounter c c' (FileCloseEvent fv) =
     (map_option changeCount (getBuffer c (filePath fv)) = Some (version fv)
      \<and> getBuffer c' (filePath fv) = None)"
| "versionIsCounter c c' (FileSyncEvent fv contents) = False"
| "versionIsCounter c c' (FileOtherEvent kind fv) = False"

subsection \<open>Example values\<close>

definition columns :: "nat \<Rightarrow> nat \<Rightarrow> Range" where
  "columns i j = \<lparr>start = \<lparr>row = 0, column = i\<rparr>, end' = \<lparr>row = 0, column = j\<rparr>\<rparr>"

definition fileA :: "int \<Rightarrow> FileVersion" where
  "fileA v = \<lparr>filePath = ''/a'', version = v\<rparr>"

definition cacheA :: FileCache where
  "cacheA = \<lparr>buffers = [(''/a'', \<lparr>bufferText = ''foo'', changeCount = 1\<rparr>)],
             fileEvents = [FileOpenEvent (fileA 1) ''foo''],
             observers = [],
             directoryEvents = [''/a'', ''/a/b'']\<rparr>"

text \<open>A cache whose buffer for \<open>/a\<close> has reached the change counter \<open>2^53\<close>.\<close>

definition cacheBig :: FileCache where
  "cacheBig = \<lparr>buffers = [(''/a'', \<lparr>bufferText = ''foo'', changeCount = 9007199254740992\<rparr>)],
               fileEvents = [FileOpenEvent \<lparr>filePath = ''/a'', version = 9007199254740992\<rparr> ''foo''],
               observers = [],
               directoryEvents = []\<rparr>"

section \<open>Properties\<close>

subsection \<open>Arithmetic on JavaScript numbers\<close>



lemma jsSub_successor: "isJsNumber v \<Longrightarrow> jsSub (v + 1) 1 = v"
  by (simp add: jsSub_def isJsNumber_def)

lemma jsAdd_successor: "isJsNumber (v + 1) \<Longrightarrow> jsAdd v 1 = v + 1"
  by (simp add: jsAdd_def isJsNumber_def)




subsection \<open>What one call does to the cache\<close>

lemma getBuffer_setBuffer:
  "getBuffer (setBuffer path buffer c) p = (if p = path then Some buffer else getBuffer c p)"
  by (simp add: getBuffer_def setBuffer_def update_conv')

lemma getBuffer_fileEventsNext [simp]:
  "getBuffer (fileEventsNext event c) p = getBuffer c p"
  by (simp add: getBuffer_def fileEventsNext_def)

lemma fileEvents_fileEventsNext [simp]:
  "fileEvents (fileEventsNext event c) = fileEvents c @ [event]"
  by (simp add: fileEventsNext_def)

lemma observers_fileEventsNext [simp]:
  "observers (fileEventsNext event c) = map (\<lambda>received. received @ [event]) (observers c)"
  by (simp add: fileEventsNext_def)

lemma fileEvents_setBuffer [simp]: "fileEvents (setBuffer path buffer c) = fileEvents c"
  by (simp add: setBuffer_def)

lemma observers_setBuffer [simp]: "observers (setBuffer path buffer c) = observers c"
  by (simp add: setBuffer_def)

lemma open_result:
  "open' c path contents count =
     (fileEventsNext (FileOpenEvent \<lparr>filePath = path, version = count\<rparr> contents)
        (setBuffer path \<lparr>bufferText = contents, changeCount = count\<rparr> c), Inr ())"
  by (simp add: open'_def update_def newTextBuffer_def createOpenEvent_def createFileVersion_def)

lemma close_result:
  "close c path buffer =
     (fileEventsNext (FileCloseEvent \<lparr>filePath = path, version = changeCount buffer\<rparr>)
        (c\<lparr>buffers := AList.delete path (buffers c)\<rparr>), Inr ())"
  by (simp add: close_def update_def createCloseEvent_def createFileVersion_def)

lemma syncEdit_result:
  "syncEdit c path buffer contents count =
     (if count < changeCount buffer then (c, Inr ())
      else (fileEventsNext
              (FileEditEvent \<lparr>filePath = path, version = count\<rparr>
                 (getRange buffer) (bufferText buffer)
                 (getRange \<lparr>bufferText = contents, changeCount = count\<rparr>) contents)
              (setBuffer path \<lparr>bufferText = contents, changeCount = count\<rparr> c), Inr ()))"
  by (cases buffer)
     (simp add: syncEdit_def update_def createEditEvent_def createFileVersion_def
        getText_def setText_def getRange_def Let_def)

lemma edit_result:
  assumes "getBuffer c (filePath fv) = Some buffer"
    and "version fv = changeCount buffer + 1"
    and "isJsNumber (changeCount buffer)" and "isJsNumber (version fv)"
    and "getTextInRange buffer oldRange = oldText"
  shows "onFileEvent c (FileEditEvent fv oldRange oldText newRange newText) =
     (fileEventsNext (FileEditEvent fv oldRange oldText newRange newText)
        (setBuffer (filePath fv)
           \<lparr>bufferText = replaceRange (bufferText buffer) oldRange newText,
             changeCount = version fv\<rparr> c), Inr ())"
  using assms
  by (cases buffer) (simp add: update_def setTextInRange_def Let_def jsSub_successor jsAdd_successor)

subsection \<open>Stale and mismatching events\<close>




text \<open>
  C4. For an existing buffer, a Sync event whose version is strictly less than the
  buffer's change counter is a no-op: the call succeeds, the whole cache (the buffer's
  text and counter included) is unchanged, and nothing is published.
\<close>

theorem sync_stale_is_noop:
  assumes "getBuffer c (filePath fv) = Some buffer"
    and "version fv < changeCount buffer"
  shows "onFileEvent c (FileSyncEvent fv contents) = (c, Inr ())
    \<and> getBuffer (fst (onFileEvent c (FileSyncEvent fv contents))) (filePath fv) = Some buffer
    \<and> publishedSince c (fst (onFileEvent c (FileSyncEvent fv contents))) = []"
  using assms by (simp add: syncEdit_result publishedSince_def)

theorem sync_stale_is_noop_witness:
  "getBuffer cacheA (filePath (fileA 0)) = Some \<lparr>bufferText = ''foo'', changeCount = 1\<rparr>
   \<and> version (fileA 0) < changeCount \<lparr>bufferText = ''foo'', changeCount = 1\<rparr>
   \<and> onFileEvent cacheA (FileSyncEvent (fileA 0) ''bar'') = (cacheA, Inr ())"
  using sync_stale_is_noop [of cacheA "fileA 0" "\<lparr>bufferText = ''foo'', changeCount = 1\<rparr>" "''bar''"]
  by (simp add: getBuffer_def cacheA_def fileA_def)

subsection \<open>The range of a buffer spans its text\<close>

lemma characterIndexForPosition_origin [simp]: "characterIndexForPosition t 0 0 = 0"
  by (cases t) simp_all

lemma characterIndexForPosition_end [simp]:
  "characterIndexForPosition t (row (getEndPosition t)) (column (getEndPosition t)) = length t"
proof (induction t)
  case Nil
  show ?case by simp
next
  case (Cons x xs)
  show ?case
  proof (cases "row (getEndPosition xs)")
    case 0
    with Cons show ?thesis by (simp add: Let_def)
  next
    case (Suc r)
    with Cons show ?thesis by (simp add: Let_def)
  qed
qed

lemma getRange_spans_text: "getTextInRange buffer (getRange buffer) = getText buffer"
  by (simp add: getTextInRange_def getRange_def getText_def textInRange_def)

subsection \<open>Open and Sync\<close>

text \<open>
  C5. An Open event for a path that already has a buffer fails with DesyncError and leaves
  the cache, hence the existing buffer, unchanged. For a path with no buffer it succeeds,
  the path then has a buffer whose text is the given contents and whose counter is the
  given version, and exactly one event is published: the Open event for that path and
  version with those contents.
\<close>

theorem open_creates_or_desyncs:
  "(getBuffer c (filePath fv) \<noteq> None \<longrightarrow>
      onFileEvent c (FileOpenEvent fv contents) = (c, Inl DesyncError))
   \<and> (getBuffer c (filePath fv) = None \<longrightarrow>
      snd (onFileEvent c (FileOpenEvent fv contents)) = Inr ()
      \<and> getBuffer (fst (onFileEvent c (FileOpenEvent fv contents))) (filePath fv)
          = Some \<lparr>bufferText = contents, changeCount = version fv\<rparr>
      \<and> publishedSince c (fst (onFileEvent c (FileOpenEvent fv contents)))
          = [FileOpenEvent fv contents])"
  by (auto simp: open_result getBuffer_setBuffer publishedSince_def)

theorem open_creates_or_desyncs_witness:
  "getBuffer cacheA (filePath (fileA 2)) \<noteq> None
   \<and> onFileEvent cacheA (FileOpenEvent (fileA 2) ''bar'') = (cacheA, Inl DesyncError)
   \<and> getBuffer newFileCache (filePath (fileA 1)) = None
   \<and> snd (onFileEvent newFileCache (FileOpenEvent (fileA 1) ''foo'')) = Inr ()
   \<and> getBuffer (fst (onFileEvent newFileCache (FileOpenEvent (fileA 1) ''foo''))) (filePath (fileA 1))
       = Some \<lparr>bufferText = ''foo'', changeCount = 1\<rparr>
   \<and> publishedSince newFileCache (fst (onFileEvent newFileCache (FileOpenEvent (fileA 1) ''foo'')))
       = [FileOpenEvent (fileA 1) ''foo'']"
proof -
  have a: "getBuffer cacheA (filePath (fileA 2)) \<noteq> None"
    by (simp add: getBuffer_def cacheA_def fileA_def)
  have n: "getBuffer newFileCache (filePath (fileA 1)) = None"
    by (simp add: getBuffer_def newFileCache_def)
  have v: "version (fileA 1) = 1"
    by (simp add: fileA_def)
  show ?thesis
    using a n v open_creates_or_desyncs [of cacheA "fileA 2" "''bar''"]
      open_creates_or_desyncs [of newFileCache "fileA 1" "''foo''"]
    by simp
qed

text \<open>
  C3. When a buffer exists for the path, a Sync event whose version is at least the
  buffer's change counter succeeds; afterwards the buffer's text is the synced contents and
  its counter is the synced version, whatever they were before, and exactly one event is
  published: an Edit event for that path and version whose old range and old text are the
  range and text of the buffer's previous full content and whose new range and new text are
  those of the new full content (each range spans the whole of its text). When no buffer
  exists for the path, the Sync event succeeds, the path then has a buffer whose text is
  the synced contents and whose counter is the synced version, exactly one event is
  published, the Open event for that path and version with those contents, and the call
  does exactly what the Open event with the same contents and version does.
\<close>

theorem sync_replaces_or_opens:
  "(getBuffer c (filePath fv) = Some buffer \<and> changeCount buffer \<le> version fv \<longrightarrow>
      snd (onFileEvent c (FileSyncEvent fv contents)) = Inr ()
      \<and> getBuffer (fst (onFileEvent c (FileSyncEvent fv contents))) (filePath fv)
          = Some \<lparr>bufferText = contents, changeCount = version fv\<rparr>
      \<and> publishedSince c (fst (onFileEvent c (FileSyncEvent fv contents)))
          = [FileEditEvent fv (getRange buffer) (getText buffer)
               (getRange \<lparr>bufferText = contents, changeCount = version fv\<rparr>) contents]
      \<and> getTextInRange buffer (getRange buffer) = getText buffer
      \<and> getTextInRange \<lparr>bufferText = contents, changeCount = version fv\<rparr>
            (getRange \<lparr>bufferText = contents, changeCount = version fv\<rparr>) = contents)
   \<and> (getBuffer c (filePath fv) = None \<longrightarrow>
      snd (onFileEvent c (FileSyncEvent fv contents)) = Inr ()
      \<and> getBuffer (fst (onFileEvent c (FileSyncEvent fv contents))) (filePath fv)
          = Some \<lparr>bufferText = contents, changeCount = version fv\<rparr>
      \<and> publishedSince c (fst (onFileEvent c (FileSyncEvent fv contents)))
          = [FileOpenEvent fv contents]
      \<and> onFileEvent c (FileSyncEvent fv contents) = onFileEvent c (FileOpenEvent fv contents))"
proof -
  have "getTextInRange \<lparr>bufferText = contents, changeCount = version fv\<rparr>
          (getRange \<lparr>bufferText = contents, changeCount = version fv\<rparr>) = contents"
    using getRange_spans_text [of "\<lparr>bufferText = contents, changeCount = version fv\<rparr>"]
    by (simp add: getText_def)
  then show ?thesis
    by (auto simp: syncEdit_result open_result getBuffer_setBuffer publishedSince_def
        getRange_spans_text getText_def)
qed

theorem sync_replaces_or_opens_witness:
  "getBuffer cacheA (filePath (fileA 7)) = Some \<lparr>bufferText = ''foo'', changeCount = 1\<rparr>
   \<and> changeCount \<lparr>bufferText = ''foo'', changeCount = 1\<rparr> \<le> version (fileA 7)
   \<and> snd (onFileEvent cacheA (FileSyncEvent (fileA 7) ''quux'')) = Inr ()
   \<and> getBuffer (fst (onFileEvent cacheA (FileSyncEvent (fileA 7) ''quux''))) (filePath (fileA 7))
       = Some \<lparr>bufferText = ''quux'', changeCount = 7\<rparr>
   \<and> publishedSince cacheA (fst (onFileEvent cacheA (FileSyncEvent (fileA 7) ''quux'')))
       = [FileEditEvent (fileA 7) (columns 0 3) ''foo'' (columns 0 4) ''quux'']
   \<and> getBuffer newFileCache (filePath (fileA 7)) = None
   \<and> snd (onFileEvent newFileCache (FileSyncEvent (fileA 7) ''quux'')) = Inr ()
   \<and> getBuffer (fst (onFileEvent newFileCache (FileSyncEvent (fileA 7) ''quux''))) (filePath (fileA 7))
       = Some \<lparr>bufferText = ''quux'', changeCount = 7\<rparr>
   \<and> publishedSince newFileCache (fst (onFileEvent newFileCache (FileSyncEvent (fileA 7) ''quux'')))
       = [FileOpenEvent (fileA 7) ''quux'']
   \<and> onFileEvent newFileCache (FileSyncEvent (fileA 7) ''quux'')
       = onFileEvent newFileCache (FileOpenEvent (fileA 7) ''quux'')"
proof -
  have a: "getBuffer cacheA (filePath (fileA 7)) = Some \<lparr>bufferText = ''foo'', changeCount = 1\<rparr>"
    by (simp add: getBuffer_def cacheA_def fileA_def)
  have n: "getBuffer newFileCache (filePath (fileA 7)) = None"
    by (simp add: getBuffer_def newFileCache_def)
  have v: "version (fileA 7) = 7"
    by (simp add: fileA_def)
  have r: "getRange \<lparr>bufferText = ''foo'', changeCount = 1\<rparr> = columns 0 3"
    "getRange \<lparr>bufferText = ''quux'', changeCount = 7\<rparr> = columns 0 4"
    by (simp_all add: getRange_def columns_def newline_def)
  show ?thesis
    using a n v r
      sync_replaces_or_opens [of cacheA "fileA 7" "\<lparr>bufferText = ''foo'', changeCount = 1\<rparr>" "''quux''"]
      sync_replaces_or_opens [of newFileCache "fileA 7" _ "''quux''"]
    by (simp add: getText_def)
qed

subsection \<open>Other paths\<close>

text \<open>
  C9. For every event and every path other than the event's path, the call leaves the
  entry of that path as it was: the same buffer (text and counter) if it had one, none if
  it had none, whatever the outcome of the call.
\<close>

theorem other_paths_untouched:
  assumes "p \<noteq> filePath (fileVersion event)"
  shows "getBuffer (fst (onFileEvent c event)) p = getBuffer c p"
proof (cases event)
  case (FileOpenEvent fv contents)
  with assms show ?thesis
    by (simp add: open_result getBuffer_setBuffer split: option.splits)
next
  case (FileCloseEvent fv)
  with assms show ?thesis
    by (simp add: close_result split: option.splits)
       (simp add: getBuffer_def delete_conv')
next
  case (FileEditEvent fv oldRange oldText newRange newText)
  with assms show ?thesis
    by (simp add: update_def Let_def getBuffer_setBuffer split: option.splits)
next
  case (FileSyncEvent fv contents)
  with assms show ?thesis
    by (simp add: open_result syncEdit_result getBuffer_setBuffer split: option.splits)
next
  case (FileOtherEvent kind fv)
  then show ?thesis by simp
qed

theorem other_paths_untouched_witness:
  "''/a'' \<noteq> filePath (fileVersion (FileOpenEvent \<lparr>filePath = ''/b'', version = 4\<rparr> ''x''))
   \<and> getBuffer (fst (onFileEvent cacheA (FileOpenEvent \<lparr>filePath = ''/b'', version = 4\<rparr> ''x''))) ''/a''
       = Some \<lparr>bufferText = ''foo'', changeCount = 1\<rparr>
   \<and> ''/a'' \<noteq> filePath (fileVersion (FileCloseEvent \<lparr>filePath = ''/b'', version = 4\<rparr>))
   \<and> getBuffer (fst (onFileEvent cacheA (FileCloseEvent \<lparr>filePath = ''/b'', version = 4\<rparr>))) ''/a''
       = Some \<lparr>bufferText = ''foo'', changeCount = 1\<rparr>"
  using other_paths_untouched [of "''/a''" "FileOpenEvent \<lparr>filePath = ''/b'', version = 4\<rparr> ''x''" cacheA]
    other_paths_untouched [of "''/a''" "FileCloseEvent \<lparr>filePath = ''/b'', version = 4\<rparr>" cacheA]
  by (simp add: getBuffer_def cacheA_def)

subsection \<open>Reading a buffer at a version\<close>

text \<open>
  C6. Whatever the version notifier answered, the fetch that waits (once its wait has
  resolved) and the fetch that does not wait return a buffer only if the path has that
  buffer in the cache and the buffer's counter is exactly the requested version; they
  return nothing when the path has no buffer (it was never opened, or was closed) and when
  the counter differs from the requested version, in particular when it has advanced past
  it.
\<close>

theorem fetch_at_version_exact:
  "(getBufferAtVersion waited c fv = Some buffer) =
      (waited \<and> getBuffer c (filePath fv) = Some buffer \<and> changeCount buffer = version fv)
   \<and> (tryGetBufferAtVersionSynchronously isAtVersion c fv = Some buffer) =
      (isAtVersion \<and> getBuffer c (filePath fv) = Some buffer \<and> changeCount buffer = version fv)
   \<and> (getBuffer c (filePath fv) = None \<longrightarrow>
        getBufferAtVersion waited c fv = None
        \<and> tryGetBufferAtVersionSynchronously isAtVersion c fv = None)
   \<and> (getBuffer c (filePath fv) = Some buffer \<and> changeCount buffer \<noteq> version fv \<longrightarrow>
        getBufferAtVersion waited c fv = None
        \<and> tryGetBufferAtVersionSynchronously isAtVersion c fv = None)"
  by (auto simp: getBufferAtVersion_def tryGetBufferAtVersionSynchronously_def
      split: option.splits)

theorem fetch_at_version_exact_witness:
  "getBufferAtVersion True cacheA (fileA 1) = Some \<lparr>bufferText = ''foo'', changeCount = 1\<rparr>
   \<and> tryGetBufferAtVersionSynchronously True cacheA (fileA 1)
       = Some \<lparr>bufferText = ''foo'', changeCount = 1\<rparr>
   \<and> getBuffer cacheA (filePath (fileA 0)) = Some \<lparr>bufferText = ''foo'', changeCount = 1\<rparr>
   \<and> changeCount \<lparr>bufferText = ''foo'', changeCount = 1\<rparr> \<noteq> version (fileA 0)
   \<and> getBufferAtVersion True cacheA (fileA 0) = None
   \<and> tryGetBufferAtVersionSynchronously True cacheA (fileA 0) = None
   \<and> getBuffer newFileCache (filePath (fileA 1)) = None
   \<and> getBufferAtVersion True newFileCache (fileA 1) = None
   \<and> tryGetBufferAtVersionSynchronously True newFileCache (fileA 1) = None"
proof -
  have a: "getBuffer cacheA ''/a'' = Some \<lparr>bufferText = ''foo'', changeCount = 1\<rparr>"
    by (simp add: getBuffer_def cacheA_def)
  have n: "getBuffer newFileCache ''/a'' = None"
    by (simp add: getBuffer_def newFileCache_def)
  show ?thesis
    using a n
      fetch_at_version_exact [of True cacheA "fileA 1" "\<lparr>bufferText = ''foo'', changeCount = 1\<rparr>" True]
      fetch_at_version_exact [of True cacheA "fileA 0" "\<lparr>bufferText = ''foo'', changeCount = 1\<rparr>" True]
      fetch_at_version_exact [of True newFileCache "fileA 1" _ True]
    by (simp add: fileA_def)
qed

subsection \<open>The containing directory\<close>

lemma firstContaining_find:
  "firstContaining contains dirs path = find (\<lambda>dir. contains dir path) dirs"
  by (induction dirs) simp_all

text \<open>
  C10. \<open>getContainingDirectory\<close> returns the first directory, in the iteration order of the
  current set of open directories, that contains the query path: a directory at some
  position that contains the path while none at an earlier position does; and it returns
  nothing exactly when no open directory contains the path; the current set is the one
  last given to \<open>onDirectoriesChanged\<close>. The directory returned need
  not be the most deeply nested one: with the open directories \<open>/a\<close> and \<open>/a/b\<close>, in this
  order, the answer for \<open>/a/b/c\<close> is \<open>/a\<close>, although \<open>/a/b\<close> lies inside \<open>/a\<close> and contains
  the path too.
\<close>

theorem containing_directory_is_first:
  "getContainingDirectory contains c path
      = find (\<lambda>dir. contains dir path) (getOpenDirectories c)
   \<and> (getContainingDirectory contains c path = Some d) =
      (\<exists>i<length (getOpenDirectories c).
          getOpenDirectories c ! i = d \<and> contains d path
          \<and> (\<forall>j<i. \<not> contains (getOpenDirectories c ! j) path))
   \<and> (getContainingDirectory contains c path = None) =
      (\<forall>dir \<in> set (getOpenDirectories c). \<not> contains dir path)
   \<and> getOpenDirectories (onDirectoriesChanged openDirectories c) = openDirectories
   \<and> getContainingDirectory pathContains cacheA ''/a/b/c'' = Some ''/a''
   \<and> ''/a/b'' \<in> set (getOpenDirectories cacheA)
   \<and> pathContains ''/a/b'' ''/a/b/c'' \<and> pathContains ''/a'' ''/a/b'' \<and> ''/a'' \<noteq> ''/a/b''"
proof -
  have "(find (\<lambda>dir. contains dir path) (getOpenDirectories c) = Some d) =
      (\<exists>i<length (getOpenDirectories c).
          getOpenDirectories c ! i = d \<and> contains d path
          \<and> (\<forall>j<i. \<not> contains (getOpenDirectories c ! j) path))"
    by (auto simp: find_Some_iff)
  moreover have "getContainingDirectory pathContains cacheA ''/a/b/c'' = Some ''/a''"
    by (simp add: getContainingDirectory_def getOpenDirectories_def cacheA_def pathContains_def)
  moreover have "''/a/b'' \<in> set (getOpenDirectories cacheA)"
    by (simp add: getOpenDirectories_def cacheA_def)
  moreover have "pathContains ''/a/b'' ''/a/b/c''" "pathContains ''/a'' ''/a/b''"
    by (simp_all add: pathContains_def)
  ultimately show ?thesis
    by (simp add: getContainingDirectory_def firstContaining_find find_None_iff Ball_def
        getOpenDirectories_def onDirectoriesChanged_def)
qed

theorem containing_directory_is_first_witness:
  "getContainingDirectory pathContains cacheA ''/a/b/c'' = Some ''/a''
   \<and> getOpenDirectories cacheA ! 0 = ''/a'' \<and> pathContains ''/a'' ''/a/b/c''
   \<and> getContainingDirectory pathContains cacheA ''/x'' = None
   \<and> \<not> pathContains ''/a'' ''/x'' \<and> \<not> pathContains ''/a/b'' ''/x''"
  using containing_directory_is_first [of pathContains cacheA "''/a/b/c''" "''/a''"]
    containing_directory_is_first [of pathContains cacheA "''/x''"]
  by (simp add: getOpenDirectories_def cacheA_def pathContains_def)

subsection \<open>Versions of published events\<close>

lemma getBuffer_delete:
  "getBuffer (c\<lparr>buffers := AList.delete path (buffers c)\<rparr>) p
     = (if p = path then None else getBuffer c p)"
  by (simp add: getBuffer_def delete_conv')

text \<open>
  C8. A call of \<open>onFileEvent\<close> extends the published sequence by the events it publishes,
  and each of them carries as version the change counter of the buffer it is about at the
  moment of publication: an Open event the counter the new buffer was given, an Edit event
  (the one passed on, or the one made from a Sync) the counter the buffer holds after the
  change, a Close event the counter the buffer held when it was removed. The last holds
  of every call of \<open>close\<close> with the buffer that the map holds for the path.
\<close>

theorem published_version_is_counter:
  "fileEvents (fst (onFileEvent c event))
      = fileEvents c @ publishedSince c (fst (onFileEvent c event))
   \<and> list_all (versionIsCounter c (fst (onFileEvent c event)))
        (publishedSince c (fst (onFileEvent c event)))
   \<and> (getBuffer c path = Some buffer \<longrightarrow>
        publishedSince c (fst (close c path buffer))
          = [FileCloseEvent \<lparr>filePath = path, version = changeCount buffer\<rparr>]
        \<and> list_all (versionIsCounter c (fst (close c path buffer)))
             (publishedSince c (fst (close c path buffer))))"
proof -
  have closing: "getBuffer c path = Some buffer \<longrightarrow>
        publishedSince c (fst (close c path buffer))
          = [FileCloseEvent \<lparr>filePath = path, version = changeCount buffer\<rparr>]
        \<and> list_all (versionIsCounter c (fst (close c path buffer)))
             (publishedSince c (fst (close c path buffer)))"
    by (simp add: close_result publishedSince_def getBuffer_delete)
  have "fileEvents (fst (onFileEvent c event))
      = fileEvents c @ publishedSince c (fst (onFileEvent c event))
   \<and> list_all (versionIsCounter c (fst (onFileEvent c event)))
        (publishedSince c (fst (onFileEvent c event)))"
  proof (cases event)
    case (FileOpenEvent fv contents)
    then show ?thesis
      by (simp add: open_result publishedSince_def getBuffer_setBuffer split: option.splits)
  next
    case (FileCloseEvent fv)
    then show ?thesis
      by (simp add: close_result publishedSince_def getBuffer_delete split: option.splits)
  next
    case (FileEditEvent fv oldRange oldText newRange newText)
    then show ?thesis
      by (simp add: update_def Let_def publishedSince_def getBuffer_setBuffer setTextInRange_def
          split: option.splits)
  next
    case (FileSyncEvent fv contents)
    then show ?thesis
      by (simp add: open_result syncEdit_result publishedSince_def getBuffer_setBuffer
          split: option.splits)
  next
    case (FileOtherEvent kind fv)
    then show ?thesis by (simp add: publishedSince_def)
  qed
  with closing show ?thesis by blast
qed

theorem published_version_is_counter_witness:
  "publishedSince cacheA
      (fst (onFileEvent cacheA (FileEditEvent (fileA 2) (columns 0 3) ''foo'' (columns 0 3) ''bar'')))
     = [FileEditEvent (fileA 2) (columns 0 3) ''foo'' (columns 0 3) ''bar'']
   \<and> map_option changeCount
        (getBuffer
           (fst (onFileEvent cacheA (FileEditEvent (fileA 2) (columns 0 3) ''foo'' (columns 0 3) ''bar'')))
           ''/a'') = Some 2
   \<and> publishedSince cacheA (fst (onFileEvent cacheA (FileCloseEvent (fileA 9))))
     = [FileCloseEvent (fileA 1)]
   \<and> getBuffer cacheA ''/a'' = Some \<lparr>bufferText = ''foo'', changeCount = 1\<rparr>
   \<and> publishedSince cacheA (fst (close cacheA ''/a'' \<lparr>bufferText = ''foo'', changeCount = 1\<rparr>))
     = [FileCloseEvent \<lparr>filePath = ''/a'', version = 1\<rparr>]"
proof -
  have b: "getBuffer cacheA ''/a'' = Some \<lparr>bufferText = ''foo'', changeCount = 1\<rparr>"
    by (simp add: getBuffer_def cacheA_def)
  have e: "onFileEvent cacheA (FileEditEvent (fileA 2) (columns 0 3) ''foo'' (columns 0 3) ''bar'')
      = (fileEventsNext (FileEditEvent (fileA 2) (columns 0 3) ''foo'' (columns 0 3) ''bar'')
          (setBuffer ''/a'' \<lparr>bufferText = ''bar'', changeCount = 2\<rparr> cacheA), Inr ())"
    by (simp add: getBuffer_def cacheA_def fileA_def update_def Let_def setTextInRange_def
        getTextInRange_def textInRange_def replaceRange_def columns_def newline_def setBuffer_def
        jsAdd_def jsSub_def roundDouble_def)
  have c: "onFileEvent cacheA (FileCloseEvent (fileA 9))
      = (fileEventsNext (FileCloseEvent (fileA 1))
          (cacheA\<lparr>buffers := AList.delete ''/a'' (buffers cacheA)\<rparr>), Inr ())"
    by (simp add: getBuffer_def cacheA_def fileA_def close_result)
  show ?thesis
    using b published_version_is_counter
      [of cacheA "FileEditEvent (fileA 2) (columns 0 3) ''foo'' (columns 0 3) ''bar''"
        "''/a''" "\<lparr>bufferText = ''foo'', changeCount = 1\<rparr>"]
    by (simp add: e c publishedSince_def getBuffer_setBuffer del: onFileEvent.simps)
qed

subsection \<open>An open followed by edits\<close>

lemma edits_run:
  assumes "editsPassValidation path t v edits"
    and "getBuffer c path = Some \<lparr>bufferText = t, changeCount = v\<rparr>"
  shows "snd (onFileEvents c edits) = replicate (length edits) (Inr ())
    \<and> getBuffer (fst (onFileEvents c edits)) path
        = Some \<lparr>bufferText = applyReplacements t edits, changeCount = v + int (length edits)\<rparr>"
  using assms
proof (induction path t v edits arbitrary: c rule: editsPassValidation.induct)
  case (1 path t v)
  then show ?case by simp
next
  case (2 path t v fv oldRange oldText newRange newText events)
  let ?e = "FileEditEvent fv oldRange oldText newRange newText"
  let ?c1 = "fileEventsNext ?e
      (setBuffer path \<lparr>bufferText = replaceRange t oldRange newText, changeCount = version fv\<rparr> c)"
  note valid = "2.prems"(1) [unfolded editsPassValidation.simps(2)]
  then have p: "filePath fv = path" and v: "version fv = v + 1"
    and n: "isJsNumber v" "isJsNumber (version fv)"
    and o: "textInRange t oldRange = oldText"
    and rest: "editsPassValidation path (replaceRange t oldRange newText) (version fv) events"
    by blast+
  have step: "onFileEvent c ?e = (?c1, Inr ())"
    using edit_result [of c fv "\<lparr>bufferText = t, changeCount = v\<rparr>" oldRange oldText newRange newText]
      "2.prems"(2) p v n o
    by (simp add: getTextInRange_def)
  have "getBuffer ?c1 path
      = Some \<lparr>bufferText = replaceRange t oldRange newText, changeCount = version fv\<rparr>"
    by (simp add: getBuffer_setBuffer)
  from "2.IH" [OF rest this] show ?case
    by (simp add: step v split_beta del: onFileEvent.simps)
qed simp_all

text \<open>
  C1. If the path has no buffer, then after an Open event with contents \<open>contents\<close> and
  version \<open>v0\<close> followed by N Edit events for the path that each pass validation (the
  version is exactly the current counter plus one, both being JavaScript numbers as every
  value the code holds is, and the old text is the text at the old range),
  every one of the calls has succeeded, the buffer's change counter is \<open>v0 + N\<close>, and its
  text is the result of applying the N range replacements to \<open>contents\<close> in order.
\<close>

theorem open_then_edits:
  assumes "getBuffer c path = None"
    and "editsPassValidation path contents v0 edits"
  shows "snd (onFileEvents c (FileOpenEvent \<lparr>filePath = path, version = v0\<rparr> contents # edits))
      = replicate (Suc (length edits)) (Inr ())
    \<and> getBuffer (fst (onFileEvents c (FileOpenEvent \<lparr>filePath = path, version = v0\<rparr> contents # edits)))
        path
      = Some \<lparr>bufferText = applyReplacements contents edits, changeCount = v0 + int (length edits)\<rparr>"
proof -
  let ?c1 = "fileEventsNext (FileOpenEvent \<lparr>filePath = path, version = v0\<rparr> contents)
      (setBuffer path \<lparr>bufferText = contents, changeCount = v0\<rparr> c)"
  have step: "onFileEvent c (FileOpenEvent \<lparr>filePath = path, version = v0\<rparr> contents) = (?c1, Inr ())"
    using assms(1) by (simp add: open_result)
  have "getBuffer ?c1 path = Some \<lparr>bufferText = contents, changeCount = v0\<rparr>"
    by (simp add: getBuffer_setBuffer)
  from edits_run [OF assms(2) this] show ?thesis
    by (simp add: step split_beta del: onFileEvent.simps)
qed

theorem open_then_edits_witness:
  "getBuffer newFileCache ''/a'' = None
   \<and> editsPassValidation ''/a'' ''foo'' 1
        [FileEditEvent (fileA 2) (columns 0 3) ''foo'' (columns 0 3) ''bar'',
         FileEditEvent (fileA 3) (columns 2 3) ''r'' (columns 2 4) ''zz'']
   \<and> snd (onFileEvents newFileCache
        [FileOpenEvent \<lparr>filePath = ''/a'', version = 1\<rparr> ''foo'',
         FileEditEvent (fileA 2) (columns 0 3) ''foo'' (columns 0 3) ''bar'',
         FileEditEvent (fileA 3) (columns 2 3) ''r'' (columns 2 4) ''zz''])
      = [Inr (), Inr (), Inr ()]
   \<and> getBuffer (fst (onFileEvents newFileCache
        [FileOpenEvent \<lparr>filePath = ''/a'', version = 1\<rparr> ''foo'',
         FileEditEvent (fileA 2) (columns 0 3) ''foo'' (columns 0 3) ''bar'',
         FileEditEvent (fileA 3) (columns 2 3) ''r'' (columns 2 4) ''zz''])) ''/a''
      = Some \<lparr>bufferText = ''bazz'', changeCount = 3\<rparr>"
proof -
  have n: "getBuffer newFileCache ''/a'' = None"
    by (simp add: getBuffer_def newFileCache_def)
  have v: "editsPassValidation ''/a'' ''foo'' 1
        [FileEditEvent (fileA 2) (columns 0 3) ''foo'' (columns 0 3) ''bar'',
         FileEditEvent (fileA 3) (columns 2 3) ''r'' (columns 2 4) ''zz'']"
    by (simp add: fileA_def columns_def textInRange_def replaceRange_def newline_def
        isJsNumber_def roundDouble_def)
  have a: "applyReplacements ''foo''
        [FileEditEvent (fileA 2) (columns 0 3) ''foo'' (columns 0 3) ''bar'',
         FileEditEvent (fileA 3) (columns 2 3) ''r'' (columns 2 4) ''zz''] = ''bazz''"
    by (simp add: columns_def replaceRange_def newline_def)
  show ?thesis
    using n v open_then_edits [OF n v]
    by (simp add: a del: onFileEvents.simps editsPassValidation.simps applyReplacements.simps)
qed

subsection \<open>Subscribers of the event stream\<close>

lemma onFileEvent_extends:
  "\<exists>new. fileEvents (fst (onFileEvent c event)) = fileEvents c @ new
     \<and> observers (fst (onFileEvent c event)) = map (\<lambda>received. received @ new) (observers c)"
proof (cases event)
  case (FileOpenEvent fv contents)
  then show ?thesis
    by (cases "getBuffer c (filePath fv)") (simp_all add: open_result)
next
  case (FileCloseEvent fv)
  then show ?thesis
    by (cases "getBuffer c (filePath fv)") (simp_all add: close_result fileEventsNext_def)
next
  case (FileEditEvent fv oldRange oldText newRange newText)
  then show ?thesis
    by (cases "getBuffer c (filePath fv)") (simp_all add: update_def Let_def setTextInRange_def)
next
  case (FileSyncEvent fv contents)
  then show ?thesis
    by (cases "getBuffer c (filePath fv)") (simp_all add: open_result syncEdit_result)
next
  case (FileOtherEvent kind fv)
  then show ?thesis by simp
qed

lemma onFileEvents_extends:
  "\<exists>new. fileEvents (fst (onFileEvents c events)) = fileEvents c @ new
     \<and> observers (fst (onFileEvents c events)) = map (\<lambda>received. received @ new) (observers c)"
proof (induction events arbitrary: c)
  case Nil
  show ?case by simp
next
  case (Cons event events)
  obtain c1 r where step: "onFileEvent c event = (c1, r)"
    by (cases "onFileEvent c event")
  from onFileEvent_extends [of c event] step
  obtain new1 where 1: "fileEvents c1 = fileEvents c @ new1"
    "observers c1 = map (\<lambda>received. received @ new1) (observers c)"
    by auto
  from Cons.IH [of c1]
  obtain new2 where 2: "fileEvents (fst (onFileEvents c1 events)) = fileEvents c1 @ new2"
    "observers (fst (onFileEvents c1 events)) = map (\<lambda>received. received @ new2) (observers c1)"
    by auto
  have "fileEvents (fst (onFileEvents c (event # events))) = fileEvents c @ (new1 @ new2)
     \<and> observers (fst (onFileEvents c (event # events)))
        = map (\<lambda>received. received @ (new1 @ new2)) (observers c)"
    using 1 2 by (simp add: step split_beta del: onFileEvent.simps)
  then show ?case by blast
qed

text \<open>
  A subscriber receives the array its observable was built with, and after it every event
  published from the subscription on, each once and in the order of publication.
\<close>

lemma subscriber_receives:
  "length (observers (fst (onFileEvents (subscribe replay c) events))) = Suc (length (observers c))
   \<and> observers (fst (onFileEvents (subscribe replay c) events)) ! length (observers c)
      = replay @ publishedSince c (fst (onFileEvents (subscribe replay c) events))"
proof -
  from onFileEvents_extends [of "subscribe replay c" events]
  obtain new where
    f: "fileEvents (fst (onFileEvents (subscribe replay c) events)) = fileEvents (subscribe replay c) @ new"
    and o: "observers (fst (onFileEvents (subscribe replay c) events))
        = map (\<lambda>received. received @ new) (observers (subscribe replay c))"
    by auto
  have "publishedSince c (fst (onFileEvents (subscribe replay c) events)) = new"
    using f by (simp add: publishedSince_def subscribe_def)
  then show ?thesis
    using o by (simp add: subscribe_def nth_append)
qed

lemma open_events_of_path:
  assumes "distinct (map fst entries)"
  shows "filter (\<lambda>e. filePath (fileVersion e) = path)
       (map (\<lambda>(p, buffer).
               createOpenEvent (createFileVersion p (changeCount buffer)) (getText buffer)) entries)
     = (case map_of entries path of
          None \<Rightarrow> []
        | Some buffer \<Rightarrow>
            [FileOpenEvent \<lparr>filePath = path, version = changeCount buffer\<rparr> (bufferText buffer)])"
  using assms
proof (induction entries)
  case Nil
  show ?case by simp
next
  case (Cons entry entries)
  obtain p buffer where entry: "entry = (p, buffer)"
    by (cases entry)
  show ?case
  proof (cases "p = path")
    case True
    with Cons.prems entry have "map_of entries path = None"
      by (simp add: map_of_eq_None_iff)
    with Cons entry True show ?thesis
      by (simp add: createOpenEvent_def createFileVersion_def getText_def)
  next
    case False
    with Cons entry show ?thesis
      by (simp add: createOpenEvent_def createFileVersion_def)
  qed
qed

text \<open>
  The paths of \<open>buffers\<close> are pairwise different in the new cache and stay so: it is the
  list of entries of a \<^verbatim>\<open>Map\<close>.
\<close>

lemma distinct_paths_new: "distinct (map fst (buffers newFileCache))"
  by (simp add: newFileCache_def)

lemma distinct_paths_onFileEvent:
  assumes "distinct (map fst (buffers c))"
  shows "distinct (map fst (buffers (fst (onFileEvent c event))))"
proof (cases event)
  case (FileOpenEvent fv contents)
  with assms show ?thesis
    by (simp add: open_result fileEventsNext_def setBuffer_def distinct_update
        split: option.splits)
next
  case (FileCloseEvent fv)
  with assms show ?thesis
    by (simp add: close_result fileEventsNext_def distinct_delete split: option.splits)
next
  case (FileEditEvent fv oldRange oldText newRange newText)
  with assms show ?thesis
    by (simp add: update_def Let_def fileEventsNext_def setBuffer_def distinct_update
        split: option.splits)
next
  case (FileSyncEvent fv contents)
  with assms show ?thesis
    by (simp add: open_result syncEdit_result fileEventsNext_def setBuffer_def distinct_update
        split: option.splits)
next
  case (FileOtherEvent kind fv)
  with assms show ?thesis by simp
qed

text \<open>
  C7, as amended. The array that \<open>observeFileEvents\<close> replays is built from the cache
  \<open>c0\<close> in which it is called. For every such state (the paths of the map being pairwise
  different), the replay holds, for each path, exactly one event if the path has a buffer
  in \<open>c0\<close>, namely the Open event with the contents and counter the buffer has there, and
  none if it has no buffer. A subscriber that subscribes in any cache state \<open>c\<close> is one
  more observer; whatever events are applied afterwards, what it has received is the replay
  followed by exactly the events published since the subscription, in their order: the
  replay comes before every live event, and no event published after the subscription is
  missing or repeated. When the subscription is made in the state of the call (\<open>c = c0\<close>),
  the replay carries the live contents and current counters.
\<close>

theorem observer_replay_then_live:
  assumes "distinct (map fst (buffers c0))"
  shows "filter (\<lambda>e. filePath (fileVersion e) = path) (observeFileEvents c0)
      = (case getBuffer c0 path of
           None \<Rightarrow> []
         | Some buffer \<Rightarrow>
             [FileOpenEvent \<lparr>filePath = path, version = changeCount buffer\<rparr> (bufferText buffer)])
    \<and> length (observeFileEvents c0) = length (buffers c0)
    \<and> length (observers (fst (onFileEvents (subscribe (observeFileEvents c0) c) events)))
        = Suc (length (observers c))
    \<and> observers (fst (onFileEvents (subscribe (observeFileEvents c0) c) events)) ! length (observers c)
        = observeFileEvents c0
          @ publishedSince c (fst (onFileEvents (subscribe (observeFileEvents c0) c) events))"
  using open_events_of_path [OF assms, of path] subscriber_receives [of "observeFileEvents c0" c events]
  by (simp add: observeFileEvents_def getBuffer_def)

theorem observer_replay_then_live_witness:
  "distinct (map fst (buffers cacheA))
   \<and> observeFileEvents cacheA = [FileOpenEvent (fileA 1) ''foo'']
   \<and> getBuffer cacheA ''/a'' = Some \<lparr>bufferText = ''foo'', changeCount = 1\<rparr>
   \<and> observers (fst (onFileEvents (subscribe (observeFileEvents cacheA) cacheA)
        [FileEditEvent (fileA 2) (columns 0 3) ''foo'' (columns 0 3) ''bar'',
         FileCloseEvent (fileA 2)])) ! length (observers cacheA)
      = [FileOpenEvent (fileA 1) ''foo'',
         FileEditEvent (fileA 2) (columns 0 3) ''foo'' (columns 0 3) ''bar'',
         FileCloseEvent (fileA 2)]
   \<and> observers (fst (onFileEvents (subscribe (observeFileEvents cacheA) cacheBig)
        [FileCloseEvent (fileA 0)])) ! length (observers cacheBig)
      = [FileOpenEvent (fileA 1) ''foo'',
         FileCloseEvent \<lparr>filePath = ''/a'', version = 9007199254740992\<rparr>]"
proof -
  have d: "distinct (map fst (buffers cacheA))"
    by (simp add: cacheA_def)
  have b: "getBuffer cacheA ''/a'' = Some \<lparr>bufferText = ''foo'', changeCount = 1\<rparr>"
    by (simp add: getBuffer_def cacheA_def)
  have r: "observeFileEvents cacheA = [FileOpenEvent (fileA 1) ''foo'']"
    by (simp add: observeFileEvents_def cacheA_def createOpenEvent_def createFileVersion_def
        getText_def fileA_def)
  have p: "publishedSince cacheA (fst (onFileEvents (subscribe [FileOpenEvent (fileA 1) ''foo''] cacheA)
        [FileEditEvent (fileA 2) (columns 0 3) ''foo'' (columns 0 3) ''bar'',
         FileCloseEvent (fileA 2)]))
      = [FileEditEvent (fileA 2) (columns 0 3) ''foo'' (columns 0 3) ''bar'',
         FileCloseEvent (fileA 2)]"
    by (simp add: subscribe_def cacheA_def fileA_def getBuffer_def update_def Let_def
          setTextInRange_def getTextInRange_def textInRange_def replaceRange_def columns_def
          newline_def setBuffer_def close_result fileEventsNext_def publishedSince_def
          jsAdd_def jsSub_def roundDouble_def)
  have q: "publishedSince cacheBig (fst (onFileEvents (subscribe [FileOpenEvent (fileA 1) ''foo''] cacheBig)
        [FileCloseEvent (fileA 0)]))
      = [FileCloseEvent \<lparr>filePath = ''/a'', version = 9007199254740992\<rparr>]"
    by (simp add: subscribe_def cacheBig_def fileA_def getBuffer_def close_result
          fileEventsNext_def publishedSince_def)
  show ?thesis
    using d b
      observer_replay_then_live [OF d, of "''/a''" cacheA
        "[FileEditEvent (fileA 2) (columns 0 3) ''foo'' (columns 0 3) ''bar'',
          FileCloseEvent (fileA 2)]"]
      observer_replay_then_live [OF d, of "''/a''" cacheBig "[FileCloseEvent (fileA 0)]"]
    by (simp add: r p q del: onFileEvents.simps)
qed

text \<open>
  C7, as stated, promises every new subscriber the live contents and current counters. A
  subscriber that subscribes after the cache has moved on receives the replay of the
  earlier state: the observable is built for \<open>/a\<close> holding \<open>foo\<close> at version 1, an edit
  then makes it \<open>bar\<close> at version 2, and the subscriber that subscribes now receives the
  Open event with \<open>foo\<close> and version 1, not the one with \<open>bar\<close> and version 2.
\<close>

theorem late_subscriber_stale_replay:
  "getBuffer
      (fst (onFileEvent cacheA (FileEditEvent (fileA 2) (columns 0 3) ''foo'' (columns 0 3) ''bar'')))
      ''/a'' = Some \<lparr>bufferText = ''bar'', changeCount = 2\<rparr>
   \<and> observers
        (subscribe (observeFileEvents cacheA)
          (fst (onFileEvent cacheA
             (FileEditEvent (fileA 2) (columns 0 3) ''foo'' (columns 0 3) ''bar''))))
      = [[FileOpenEvent (fileA 1) ''foo'']]
   \<and> observeFileEvents
        (fst (onFileEvent cacheA (FileEditEvent (fileA 2) (columns 0 3) ''foo'' (columns 0 3) ''bar'')))
      = [FileOpenEvent (fileA 2) ''bar'']
   \<and> FileOpenEvent (fileA 1) ''foo'' \<noteq> FileOpenEvent (fileA 2) ''bar''"
proof -
  have e: "onFileEvent cacheA (FileEditEvent (fileA 2) (columns 0 3) ''foo'' (columns 0 3) ''bar'')
      = (fileEventsNext (FileEditEvent (fileA 2) (columns 0 3) ''foo'' (columns 0 3) ''bar'')
          (setBuffer ''/a'' \<lparr>bufferText = ''bar'', changeCount = 2\<rparr> cacheA), Inr ())"
    by (simp add: getBuffer_def cacheA_def fileA_def update_def Let_def setTextInRange_def
        getTextInRange_def textInRange_def replaceRange_def columns_def newline_def setBuffer_def
        jsAdd_def jsSub_def roundDouble_def)
  have r: "observeFileEvents cacheA = [FileOpenEvent (fileA 1) ''foo'']"
    by (simp add: observeFileEvents_def cacheA_def createOpenEvent_def createFileVersion_def
        getText_def fileA_def)
  have o: "observers cacheA = []"
    by (simp add: cacheA_def)
  have r2: "observeFileEvents
        (fileEventsNext (FileEditEvent (fileA 2) (columns 0 3) ''foo'' (columns 0 3) ''bar'')
          (setBuffer ''/a'' \<lparr>bufferText = ''bar'', changeCount = 2\<rparr> cacheA))
      = [FileOpenEvent (fileA 2) ''bar'']"
    by (simp add: observeFileEvents_def fileEventsNext_def setBuffer_def cacheA_def
        createOpenEvent_def createFileVersion_def getText_def fileA_def)
  show ?thesis
    by (simp add: e r r2 o subscribe_def getBuffer_setBuffer del: onFileEvent.simps)
qed

end
